theory Spec2Isabelle
  imports Main "HOL-Library.Word"
begin

section \<open>The PTY bridge (src/pty/pty\_bridge.py)\<close>

text \<open>
  The program forks a child on a pseudo-terminal and runs one event loop: bytes read from
  standard input are appended to the buffer \<open>incoming\<close> and decoded as DATA, RESIZE and
  CLOSE frames; bytes read from the PTY master are copied to standard output; the child is
  reaped when the PTY closes or when a non-blocking \<open>waitpid\<close> reports it.

  The embedding follows the source statement by statement. The mutable locals of \<open>main\<close>
  are a record that is passed along and returned; every call into the operating system is
  appended to a log (\<open>trace\<close>), in the order the program issues it; what the operating
  system answers during one pass of the outer loop is a record of its own (\<open>os_env\<close>).
\<close>

subsection \<open>Data\<close>

type_synonym byte = "8 word"

datatype py_error = StructError | ProcessLookupError | OtherOSError

text \<open>
  \<open>ProcessLookupError\<close> is a subclass of \<open>OSError\<close>; \<open>struct.error\<close> is not an
  \<open>OSError\<close>.
\<close>

fun is_OSError :: "py_error \<Rightarrow> bool" where
  "is_OSError StructError = False"
| "is_OSError ProcessLookupError = True"
| "is_OSError OtherOSError = True"

datatype signal = SIGHUP | SIGWINCH

text \<open>The C structure that \<open>struct.pack("HHHH", rows, cols, 0, 0)\<close> lays out.\<close>

record winsize =
  ws_row :: nat
  ws_col :: nat
  ws_xpixel :: nat
  ws_ypixel :: nat

text \<open>The calls the program issues, as they are logged.\<close>

datatype syscall =
    Select bool
  | ReadStdin
  | UnregisterStdin
  | ReadPty
  | WritePty "byte list"
  | WriteStdout "byte list"
  | Ioctl_TIOCSWINSZ winsize
  | Kill int signal
  | WaitpidBlocking
  | WaitpidNohang

text \<open>
  The locals of \<open>main\<close>: \<open>child_pid\<close>, whether \<open>stdin_fd\<close> is still registered with the
  selector, \<open>incoming\<close>, \<open>should_close\<close>, and the log of calls.
\<close>

record session =
  child_pid :: int
  stdin_registered :: bool
  incoming :: "byte list"
  should_close :: bool
  trace :: "syscall list"

text \<open>
  What the \<open>os\<close> module answers during one pass of the outer loop: the four status macros;
  whether standard input is readable and the chunk \<open>os.read\<close> then returns; whether the PTY
  master is readable and what \<open>os.read\<close> then returns or raises; which of the two keys
  \<open>select\<close> lists first; whether \<open>os.kill\<close> raises; the status of the blocking
  \<open>waitpid\<close>; the pair the non-blocking \<open>waitpid\<close> returns. The remaining calls
  (\<open>os.write\<close>, \<open>fcntl.ioctl\<close>, \<open>selector.unregister\<close>, \<open>os.read\<close> on standard input,
  \<open>os.waitpid\<close>) are taken to succeed.
\<close>

record os_env =
  WIFEXITED :: "int \<Rightarrow> bool"
  WEXITSTATUS :: "int \<Rightarrow> int"
  WIFSIGNALED :: "int \<Rightarrow> bool"
  WTERMSIG :: "int \<Rightarrow> int"
  stdin_ready :: "byte list option"
  pty_ready :: "(py_error + byte list) option"
  pty_first :: bool
  kill_error :: "py_error option"
  wait_blocking :: int
  wait_nohang :: "int \<times> int"

text \<open>A key of the selector that is ready, with what reading it yields.\<close>

datatype ready = StdinReady "byte list" | PtyReady "py_error + byte list"

text \<open>The frames of the control protocol.\<close>

datatype frame = Data "byte list" | Resize nat nat | Close

text \<open>What one look at the buffer finds (lines 57 to 82, without the effects).\<close>

datatype decoded =
    NeedMoreBytes
  | Frame frame "byte list"
  | Skipped "byte list"
  | DecodeError py_error

text \<open>
  How a statement ends: it falls through to the next one, leaves the inner loop by
  \<open>break\<close>, returns from \<open>main\<close>, or raises.
\<close>

datatype control =
    Normal session
  | Break session
  | Return int session
  | Raise py_error session

fun session_of :: "control \<Rightarrow> session" where
  "session_of (Normal s) = s"
| "session_of (Break s) = s"
| "session_of (Return c s) = s"
| "session_of (Raise e s) = s"

subsection \<open>Constants and helpers (lines 11 to 26)\<close>

definition OPCODE_DATA :: byte where
  "OPCODE_DATA = 0x01"

definition OPCODE_RESIZE :: byte where
  "OPCODE_RESIZE = 0x02"

definition OPCODE_CLOSE :: byte where
  "OPCODE_CLOSE = 0x03"

text \<open>Python's \<open>xs[i:j]\<close> for \<open>0 \<le> i\<close>.\<close>

definition py_slice :: "nat \<Rightarrow> nat \<Rightarrow> 'a list \<Rightarrow> 'a list" where
  "py_slice i j xs = take (j - i) (drop i xs)"

text \<open>\<open>struct.unpack(">I", b)[0]\<close>: four bytes, big-endian, unsigned.\<close>

fun unpack_I :: "byte list \<Rightarrow> py_error + nat" where
  "unpack_I [b0, b1, b2, b3] =
     Inr (unat b0 * 16777216 + unat b1 * 65536 + unat b2 * 256 + unat b3)"
| "unpack_I bs = Inl StructError"

text \<open>\<open>struct.unpack(">HH", b)\<close>: two unsigned 16-bit values, big-endian.\<close>

fun unpack_HH :: "byte list \<Rightarrow> py_error + nat \<times> nat" where
  "unpack_HH [b0, b1, b2, b3] = Inr (unat b0 * 256 + unat b1, unat b2 * 256 + unat b3)"
| "unpack_HH bs = Inl StructError"

text \<open>\<open>struct.pack("HHHH", a, b, c, d)\<close>: each value must fit 16 bits.\<close>

definition pack_HHHH :: "nat \<Rightarrow> nat \<Rightarrow> nat \<Rightarrow> nat \<Rightarrow> py_error + winsize" where
  "pack_HHHH a b c d =
     (if a < 65536 \<and> b < 65536 \<and> c < 65536 \<and> d < 65536
      then Inr \<lparr>ws_row = a, ws_col = b, ws_xpixel = c, ws_ypixel = d\<rparr>
      else Inl StructError)"

definition log_call :: "syscall \<Rightarrow> session \<Rightarrow> session" where
  "log_call c s = s\<lparr>trace := trace s @ [c]\<rparr>"

text \<open>\<open>_set_winsize(fd, cols, rows)\<close>, lines 16 to 18.\<close>

definition set_winsize :: "nat \<Rightarrow> nat \<Rightarrow> session \<Rightarrow> control" where
  "set_winsize cols rows s =
     (case pack_HHHH rows cols 0 0 of
        Inl e \<Rightarrow> Raise e s
      | Inr ws \<Rightarrow> Normal (log_call (Ioctl_TIOCSWINSZ ws) s))"

text \<open>\<open>_exit_code_from_status(status)\<close>, lines 21 to 26.\<close>

definition exit_code_from_status :: "os_env \<Rightarrow> int \<Rightarrow> int" where
  "exit_code_from_status os status =
     (if WIFEXITED os status then WEXITSTATUS os status
      else if WIFSIGNALED os status then 128 + WTERMSIG os status
      else 1)"

text \<open>\<open>os.kill(child_pid, sig)\<close>: the call is logged, then it returns or raises.\<close>

definition os_kill :: "os_env \<Rightarrow> signal \<Rightarrow> session \<Rightarrow> control" where
  "os_kill os sig s =
     (let s' = log_call (Kill (child_pid s) sig) s
      in case kill_error os of None \<Rightarrow> Normal s' | Some e \<Rightarrow> Raise e s')"

subsection \<open>The inner loop (lines 56 to 82)\<close>

text \<open>
  The part of one pass that only looks at the buffer: the length checks, the opcode, the
  fields, and the bytes \<open>del incoming[:k]\<close> leaves.
\<close>

definition decode_next :: "byte list \<Rightarrow> decoded" where
  "decode_next buf =
     (case buf of
        [] \<Rightarrow> NeedMoreBytes
      | opcode # _ \<Rightarrow>
          if opcode = OPCODE_DATA then
            (if length buf < 5 then NeedMoreBytes
             else case unpack_I (py_slice 1 5 buf) of
                    Inl e \<Rightarrow> DecodeError e
                  | Inr sz \<Rightarrow>
                      if length buf < 5 + sz then NeedMoreBytes
                      else Frame (Data (py_slice 5 (5 + sz) buf)) (drop (5 + sz) buf))
          else if opcode = OPCODE_RESIZE then
            (if length buf < 5 then NeedMoreBytes
             else case unpack_HH (py_slice 1 5 buf) of
                    Inl e \<Rightarrow> DecodeError e
                  | Inr (cols, rows) \<Rightarrow> Frame (Resize cols rows) (drop 5 buf))
          else if opcode = OPCODE_CLOSE then Frame Close (drop 1 buf)
          else Skipped (drop 1 buf))"

text \<open>
  What the pass does with a frame, after its bytes have left the buffer: lines 69 and 70,
  76 and 77, 80.
\<close>

fun dispatch :: "os_env \<Rightarrow> frame \<Rightarrow> session \<Rightarrow> control" where
  "dispatch os (Data payload) s =
     (if payload \<noteq> [] then Normal (log_call (WritePty payload) s) else Normal s)"
| "dispatch os (Resize cols rows) s =
     (case set_winsize cols rows s of
        Normal s' \<Rightarrow> os_kill os SIGWINCH s'
      | other \<Rightarrow> other)"
| "dispatch os Close s = Normal (s\<lparr>should_close := True\<rparr>)"

text \<open>One pass of \<open>while True\<close> at line 56.\<close>

definition loop_body :: "os_env \<Rightarrow> session \<Rightarrow> control" where
  "loop_body os s =
     (case decode_next (incoming s) of
        NeedMoreBytes \<Rightarrow> Break s
      | DecodeError e \<Rightarrow> Raise e s
      | Skipped rest \<Rightarrow> Normal (s\<lparr>incoming := rest\<rparr>)
      | Frame f rest \<Rightarrow> dispatch os f (s\<lparr>incoming := rest\<rparr>))"

function process_incoming :: "os_env \<Rightarrow> session \<Rightarrow> control" where
  "process_incoming os s =
     (case loop_body os s of
        Normal s' \<Rightarrow> process_incoming os s'
      | Break s' \<Rightarrow> Normal s'
      | other \<Rightarrow> other)"
  by pat_completeness auto
termination
proof (relation "measure (\<lambda>(os, s). length (incoming s))")
  show "wf (measure (\<lambda>(os, s). length (incoming s)))"
    by simp
next
  fix os :: os_env and s x1 :: session
  assume body: "loop_body os s = Normal x1"
  show "((os, x1), (os, s)) \<in> measure (\<lambda>(os, s). length (incoming s))"
  proof (cases "decode_next (incoming s)")
    case NeedMoreBytes
    with body show ?thesis by (simp add: loop_body_def)
  next
    case (DecodeError e)
    with body show ?thesis by (simp add: loop_body_def)
  next
    case (Skipped rest)
    then have "rest = drop 1 (incoming s)" "incoming s \<noteq> []"
      by (auto simp: decode_next_def split: list.splits if_splits sum.splits prod.splits)
    with body Skipped show ?thesis
      by (auto simp: loop_body_def)
  next
    case (Frame f rest)
    then have len: "length rest < length (incoming s)"
      by (auto simp: decode_next_def split: list.splits if_splits sum.splits prod.splits)
    from body Frame have "dispatch os f (s\<lparr>incoming := rest\<rparr>) = Normal x1"
      by (simp add: loop_body_def)
    then have "incoming x1 = rest"
      by (cases f)
        (auto simp: log_call_def set_winsize_def os_kill_def Let_def
          split: if_splits sum.splits control.splits option.splits)
    with len show ?thesis by simp
  qed
qed

declare process_incoming.simps [simp del]

text \<open>A frame's effects end by falling through or by raising.\<close>

fun is_Normal_or_Raise :: "control \<Rightarrow> bool" where
  "is_Normal_or_Raise (Normal s) = True"
| "is_Normal_or_Raise (Raise e s) = True"
| "is_Normal_or_Raise other = False"

text \<open>
  The same loop with a bound on the number of passes: \<open>None\<close> when the bound is reached
  before the loop has ended.
\<close>

fun process_incoming_fuel :: "nat \<Rightarrow> os_env \<Rightarrow> session \<Rightarrow> control option" where
  "process_incoming_fuel 0 os s = None"
| "process_incoming_fuel (Suc n) os s =
     (case loop_body os s of
        Normal s' \<Rightarrow> process_incoming_fuel n os s'
      | Break s' \<Rightarrow> Some (Normal s')
      | other \<Rightarrow> Some other)"

subsection \<open>The outer loop (lines 47 to 105)\<close>

text \<open>
  \<open>selector.select\<close>: the registered keys that are ready, each once, in the order the
  environment gives.
\<close>

definition selector_select :: "bool \<Rightarrow> os_env \<Rightarrow> ready list" where
  "selector_select registered os =
     (let ks = (case stdin_ready os of
                  Some chunk \<Rightarrow> if registered then [StdinReady chunk] else []
                | None \<Rightarrow> []);
          kp = (case pty_ready os of Some r \<Rightarrow> [PtyReady r] | None \<Rightarrow> [])
      in if pty_first os then kp @ ks else ks @ kp)"

text \<open>The body of the \<open>for\<close> loop for one key, lines 49 to 94.\<close>

fun handle_key :: "os_env \<Rightarrow> ready \<Rightarrow> session \<Rightarrow> control" where
  "handle_key os (StdinReady chunk) s =
     (let s1 = log_call ReadStdin s
      in if chunk = [] then Normal (log_call UnregisterStdin (s1\<lparr>stdin_registered := False\<rparr>))
         else process_incoming os (s1\<lparr>incoming := incoming s1 @ chunk\<rparr>))"
| "handle_key os (PtyReady r) s =
     (let s1 = log_call ReadPty s
      in case (case r of
                 Inl e \<Rightarrow> if is_OSError e then Inr [] else Inl e
               | Inr d \<Rightarrow> Inr d) of
           Inl e \<Rightarrow> Raise e s1
         | Inr data \<Rightarrow>
             if data \<noteq> [] then Normal (log_call (WriteStdout data) s1)
             else Return (exit_code_from_status os (wait_blocking os))
                    (log_call WaitpidBlocking s1))"

fun for_keys :: "os_env \<Rightarrow> ready list \<Rightarrow> session \<Rightarrow> control" where
  "for_keys os [] s = Normal s"
| "for_keys os (k # ks) s =
     (case handle_key os k s of
        Normal s' \<Rightarrow> for_keys os ks s'
      | other \<Rightarrow> other)"

text \<open>Lines 96 to 101.\<close>

definition close_phase :: "os_env \<Rightarrow> session \<Rightarrow> control" where
  "close_phase os s =
     (if should_close s then
        (case os_kill os SIGHUP s of
           Normal s' \<Rightarrow> Normal (s'\<lparr>should_close := False\<rparr>)
         | Raise e s' \<Rightarrow>
             if e = ProcessLookupError then Normal (s'\<lparr>should_close := False\<rparr>)
             else Raise e s'
         | other \<Rightarrow> other)
      else Normal s)"

text \<open>Lines 103 to 105.\<close>

definition reap_poll :: "os_env \<Rightarrow> session \<Rightarrow> control" where
  "reap_poll os s =
     (let s' = log_call WaitpidNohang s;
          (pid, status) = wait_nohang os
      in if pid = child_pid s' then Return (exit_code_from_status os status) s'
         else Normal s')"

text \<open>One pass of \<open>while True\<close> at line 47.\<close>

definition iteration :: "os_env \<Rightarrow> session \<Rightarrow> control" where
  "iteration os s =
     (case for_keys os (selector_select (stdin_registered s) os)
             (log_call (Select (stdin_registered s)) s) of
        Normal s1 \<Rightarrow>
          (case close_phase os s1 of
             Normal s2 \<Rightarrow> reap_poll os s2
           | other \<Rightarrow> other)
      | other \<Rightarrow> other)"

text \<open>
  The outer loop over the answers of the operating system for successive passes;
  \<open>Normal\<close> when they are used up and the loop is still running.
\<close>

fun run :: "os_env list \<Rightarrow> session \<Rightarrow> control" where
  "run [] s = Normal s"
| "run (os # oss) s =
     (case iteration os s of
        Normal s' \<Rightarrow> run oss s'
      | other \<Rightarrow> other)"

subsection \<open>The frames a buffer holds\<close>



subsection \<open>A concrete environment\<close>

text \<open>
  Wait statuses as Linux encodes them (the low seven bits hold the terminating signal, 0
  for a normal exit and 127 for a stopped child; the next byte holds the exit code);
  nothing is readable, \<open>os.kill\<close> succeeds, the child is running.
\<close>

definition linux_os :: os_env where
  "linux_os =
     \<lparr>WIFEXITED = (\<lambda>st. st mod 128 = 0),
      WEXITSTATUS = (\<lambda>st. (st div 256) mod 256),
      WIFSIGNALED = (\<lambda>st. st mod 128 \<noteq> 0 \<and> st mod 128 \<noteq> 127),
      WTERMSIG = (\<lambda>st. st mod 128),
      stdin_ready = None,
      pty_ready = None,
      pty_first = False,
      kill_error = None,
      wait_blocking = 0,
      wait_nohang = (0, 0)\<rparr>"

text \<open>The locals when the outer loop is entered (lines 44 and 45), for a child 4242.\<close>

definition session0 :: session where
  "session0 =
     \<lparr>child_pid = 4242, stdin_registered = True, incoming = [], should_close = False,
      trace = []\<rparr>"

section \<open>Properties\<close>

subsection \<open>Facts about the decoder and the two loops\<close>

lemma five_bytes:
  assumes "5 \<le> length (buf :: 'a list)"
  obtains a b c d e rest where "buf = a # b # c # d # e # rest"
proof -
  from assms obtain a t1 where 1: "buf = a # t1" "4 \<le> length t1" by (cases buf) auto
  then obtain b t2 where 2: "t1 = b # t2" "3 \<le> length t2" by (cases t1) auto
  then obtain c t3 where 3: "t2 = c # t3" "2 \<le> length t3" by (cases t2) auto
  then obtain d t4 where 4: "t3 = d # t4" "1 \<le> length t4" by (cases t3) auto
  then obtain e t5 where 5: "t4 = e # t5" by (cases t4) auto
  from 1 2 3 4 5 that show thesis by blast
qed

lemma unpack_I_slice:
  assumes "5 \<le> length buf"
  shows "unpack_I (py_slice 1 5 buf) =
     Inr (unat (buf ! 1) * 16777216 + unat (buf ! 2) * 65536 + unat (buf ! 3) * 256 + unat (buf ! 4))"
proof -
  from assms obtain a b c d e rest where "buf = a # b # c # d # e # rest"
    by (rule five_bytes)
  then show ?thesis by (simp add: py_slice_def)
qed

lemma unpack_HH_slice:
  assumes "5 \<le> length buf"
  shows "unpack_HH (py_slice 1 5 buf) =
     Inr (unat (buf ! 1) * 256 + unat (buf ! 2), unat (buf ! 3) * 256 + unat (buf ! 4))"
proof -
  from assms obtain a b c d e rest where "buf = a # b # c # d # e # rest"
    by (rule five_bytes)
  then show ?thesis by (simp add: py_slice_def)
qed

lemma slice_nth:
  assumes "j \<le> length xs"
  shows "py_slice i j xs = map ((!) xs) [i..<j]"
proof (rule nth_equalityI)
  show "length (py_slice i j xs) = length (map ((!) xs) [i..<j])"
    using assms by (simp add: py_slice_def)
next
  fix k assume "k < length (py_slice i j xs)"
  then show "py_slice i j xs ! k = map ((!) xs) [i..<j] ! k"
    using assms by (simp add: py_slice_def)
qed

lemma decode_next_data:
  assumes "buf \<noteq> []" "hd buf = 0x01"
    and "5 \<le> length buf"
    and "n = unat (buf ! 1) * 16777216 + unat (buf ! 2) * 65536 + unat (buf ! 3) * 256 + unat (buf ! 4)"
    and "5 + n \<le> length buf"
  shows "decode_next buf = Frame (Data (py_slice 5 (5 + n) buf)) (drop (5 + n) buf)"
  using assms unpack_I_slice [of buf]
  by (cases buf) (simp_all add: decode_next_def OPCODE_DATA_def)

lemma decode_next_unknown:
  assumes "b \<noteq> 0x01" "b \<noteq> 0x02" "b \<noteq> 0x03"
  shows "decode_next (b # rest) = Skipped rest"
  using assms by (simp add: decode_next_def OPCODE_DATA_def OPCODE_RESIZE_def OPCODE_CLOSE_def)

lemma loop_body_shrinks:
  assumes "loop_body os s = Normal s'"
  shows "length (incoming s') < length (incoming s)"
proof (cases "decode_next (incoming s)")
  case NeedMoreBytes
  with assms show ?thesis by (simp add: loop_body_def)
next
  case (DecodeError e)
  with assms show ?thesis by (simp add: loop_body_def)
next
  case (Skipped rest)
  then have "rest = drop 1 (incoming s)" "incoming s \<noteq> []"
    by (auto simp: decode_next_def split: list.splits if_splits sum.splits prod.splits)
  with assms Skipped show ?thesis
    by (auto simp: loop_body_def)
next
  case (Frame f rest)
  then have len: "length rest < length (incoming s)"
    by (auto simp: decode_next_def split: list.splits if_splits sum.splits prod.splits)
  from assms Frame have "dispatch os f (s\<lparr>incoming := rest\<rparr>) = Normal s'"
    by (simp add: loop_body_def)
  then have "incoming s' = rest"
    by (cases f)
      (auto simp: log_call_def set_winsize_def os_kill_def Let_def
        split: if_splits sum.splits control.splits option.splits)
  with len show ?thesis by simp
qed

lemma fuel_enough:
  "length (incoming s) < n \<Longrightarrow> process_incoming_fuel n os s = Some (process_incoming os s)"
proof (induction n arbitrary: s)
  case 0
  then show ?case by simp
next
  case (Suc n)
  show ?case
  proof (cases "loop_body os s")
    case (Normal s')
    then have "length (incoming s') < length (incoming s)" by (rule loop_body_shrinks)
    with Suc.prems have "length (incoming s') < n" by simp
    then have "process_incoming_fuel n os s' = Some (process_incoming os s')" by (rule Suc.IH)
    with Normal show ?thesis by (simp add: process_incoming.simps [of os s])
  next
    case (Break s')
    then show ?thesis by (simp add: process_incoming.simps [of os s])
  next
    case (Return c s')
    then show ?thesis by (simp add: process_incoming.simps [of os s])
  next
    case (Raise e s')
    then show ?thesis by (simp add: process_incoming.simps [of os s])
  qed
qed

lemma dispatch_kind: "is_Normal_or_Raise (dispatch os f s)"
  by (cases f)
    (auto simp: set_winsize_def os_kill_def Let_def split: sum.splits option.splits)

lemma dispatch_incoming: "incoming (session_of (dispatch os f s)) = incoming s"
  by (cases f)
    (auto simp: log_call_def set_winsize_def os_kill_def Let_def
      split: sum.splits option.splits)

lemma decode_next_never_fails: "decode_next buf \<noteq> DecodeError e"
proof (cases "5 \<le> length buf")
  case True
  then show ?thesis
    using unpack_I_slice [of buf] unpack_HH_slice [of buf]
    by (auto simp: decode_next_def split: list.splits)
next
  case False
  then show ?thesis
    by (auto simp: decode_next_def split: list.splits)
qed

lemma process_incoming_empty: "incoming s = [] \<Longrightarrow> process_incoming os s = Normal s"
  by (subst process_incoming.simps) (simp add: loop_body_def decode_next_def)

lemma decode_next_resize:
  "decode_next (0x02 # c1 # c0 # r1 # r0 # rest) =
     Frame (Resize (unat c1 * 256 + unat c0) (unat r1 * 256 + unat r0)) rest"
  by (simp add: decode_next_def OPCODE_DATA_def OPCODE_RESIZE_def py_slice_def)

lemma u16_bound: "unat (hi :: byte) * 256 + unat (lo :: byte) < 65536"
proof -
  have "unat hi < 256" "unat lo < 256"
    using unsigned_less [of hi, where ?'a = nat] unsigned_less [of lo, where ?'a = nat]
    by simp_all
  then show ?thesis by simp
qed

lemma dispatch_resize:
  assumes "cols < 65536" "rows < 65536"
  shows "dispatch os (Resize cols rows) s =
    (let s' = s\<lparr>trace := trace s @
                [Ioctl_TIOCSWINSZ \<lparr>ws_row = rows, ws_col = cols, ws_xpixel = 0, ws_ypixel = 0\<rparr>,
                 Kill (child_pid s) SIGWINCH]\<rparr>
     in case kill_error os of None \<Rightarrow> Normal s' | Some e \<Rightarrow> Raise e s')"
  using assms
  by (simp add: set_winsize_def pack_HHHH_def os_kill_def log_call_def Let_def)

lemma for_keys_append:
  "for_keys os (xs @ ys) s =
     (case for_keys os xs s of Normal s1 \<Rightarrow> for_keys os ys s1 | other \<Rightarrow> other)"
  by (induction xs arbitrary: s) (auto split: control.splits)

lemma process_incoming_raise:
  "loop_body os s = Raise e s' \<Longrightarrow> process_incoming os s = Raise e s'"
  by (simp add: process_incoming.simps [of os s])

lemma data_frame_shape:
  assumes "decode_next fr = Frame (Data payload) []"
  shows "\<exists>n. fr \<noteq> [] \<and> hd fr = OPCODE_DATA \<and> length fr = 5 + n
    \<and> unpack_I (py_slice 1 5 fr) = Inr n \<and> payload = drop 5 fr"
proof (cases fr)
  case Nil
  with assms show ?thesis by (simp add: decode_next_def)
next
  case (Cons b bs)
  with assms have op: "b = OPCODE_DATA"
    by (auto simp: decode_next_def split: if_splits sum.splits prod.splits)
  with assms Cons have five: "\<not> length fr < 5"
    by (auto simp: decode_next_def split: if_splits)
  with assms Cons op obtain n where n: "unpack_I (py_slice 1 5 fr) = Inr n"
    by (auto simp: decode_next_def split: if_splits sum.splits)
  with assms Cons op five have "\<not> length fr < 5 + n" "drop (5 + n) fr = []"
    "payload = py_slice 5 (5 + n) fr"
    by (auto simp: decode_next_def split: if_splits)
  then have "length fr = 5 + n" "payload = drop 5 fr"
    by (auto simp: py_slice_def)
  with Cons op n show ?thesis by auto
qed

lemma proper_prefix_needs_more:
  assumes fr: "decode_next (p @ q) = Frame (Data payload) []" and q: "q \<noteq> []"
  shows "decode_next p = NeedMoreBytes"
proof (cases p)
  case Nil
  then show ?thesis by (simp add: decode_next_def)
next
  case (Cons b bs)
  from data_frame_shape [OF fr] obtain n where
    shape: "hd (p @ q) = OPCODE_DATA" "length (p @ q) = 5 + n"
      "unpack_I (py_slice 1 5 (p @ q)) = Inr n"
    by blast
  from shape(1) Cons have op: "b = OPCODE_DATA" by simp
  show ?thesis
  proof (cases "length p < 5")
    case True
    with Cons op show ?thesis by (simp add: decode_next_def)
  next
    case False
    then have "py_slice 1 5 (p @ q) = py_slice 1 5 p"
      by (simp add: py_slice_def)
    with shape(3) have "unpack_I (py_slice 1 5 p) = Inr n" by simp
    moreover from shape(2) q have "length p < 5 + n" by (cases q) auto
    ultimately show ?thesis
      using Cons op False by (simp add: decode_next_def)
  qed
qed

lemma process_incoming_need_more:
  "decode_next (incoming s) = NeedMoreBytes \<Longrightarrow> process_incoming os s = Normal s"
  by (simp add: process_incoming.simps [of os s] loop_body_def)

lemma process_incoming_data_frame:
  assumes "decode_next (incoming s) = Frame (Data payload) []"
  shows "process_incoming os s =
    Normal (s\<lparr>incoming := [],
              trace := trace s @ (if payload = [] then [] else [WritePty payload])\<rparr>)"
proof -
  have "loop_body os s =
    Normal (s\<lparr>incoming := [],
              trace := trace s @ (if payload = [] then [] else [WritePty payload])\<rparr>)"
    using assms by (simp add: loop_body_def log_call_def)
  then show ?thesis
    by (simp add: process_incoming.simps [of os s] process_incoming_empty)
qed

lemma iteration_stdin_chunk:
  assumes reg: "stdin_registered s" and quiet: "\<not> should_close s"
    and os: "pty_ready os = None" "fst (wait_nohang os) \<noteq> child_pid s"
    and c: "c \<noteq> []"
    and p: "process_incoming (os\<lparr>stdin_ready := Some c\<rparr>)
              (s\<lparr>trace := trace s @ [Select True, ReadStdin], incoming := incoming s @ c\<rparr>) =
            Normal s1"
    and s1: "\<not> should_close s1" "child_pid s1 = child_pid s"
  shows "iteration (os\<lparr>stdin_ready := Some c\<rparr>) s = Normal (s1\<lparr>trace := trace s1 @ [WaitpidNohang]\<rparr>)"
proof -
  let ?os = "os\<lparr>stdin_ready := Some c\<rparr>"
  have keys: "selector_select True ?os = [StdinReady c]"
    using os by (simp add: selector_select_def Let_def)
  have "for_keys ?os [StdinReady c] (log_call (Select True) s) = Normal s1"
    using c p by (simp add: log_call_def)
  then show ?thesis
    using reg keys s1 os
    by (cases "wait_nohang os")
      (simp add: iteration_def close_phase_def reap_poll_def log_call_def Let_def
        del: for_keys.simps)
qed

lemma run_chunks:
  assumes fr: "decode_next fr = Frame (Data payload) []"
    and os: "pty_ready os = None"
  shows "\<lbrakk>chunks \<noteq> []; [] \<notin> set chunks; incoming s @ concat chunks = fr;
      stdin_registered s; \<not> should_close s; fst (wait_nohang os) \<noteq> child_pid s\<rbrakk> \<Longrightarrow>
    run (map (\<lambda>c. os\<lparr>stdin_ready := Some c\<rparr>) chunks) s =
      Normal (s\<lparr>incoming := [],
                trace := trace s
                  @ concat (replicate (length chunks - 1) [Select True, ReadStdin, WaitpidNohang])
                  @ [Select True, ReadStdin]
                  @ (if payload = [] then [] else [WritePty payload])
                  @ [WaitpidNohang]\<rparr>)"
proof (induction chunks arbitrary: s)
  case Nil
  then show ?case by simp
next
  case (Cons c cs)
  let ?os = "os\<lparr>stdin_ready := Some c\<rparr>"
  let ?s0 = "s\<lparr>trace := trace s @ [Select True, ReadStdin], incoming := incoming s @ c\<rparr>"
  from Cons.prems have c: "c \<noteq> []" by auto
  from Cons.prems have reg: "stdin_registered s" and quiet: "\<not> should_close s"
    and alive: "fst (wait_nohang os) \<noteq> child_pid s"
    by simp_all
  show ?case
  proof (cases "cs = []")
    case True
    with Cons.prems have "decode_next (incoming ?s0) = Frame (Data payload) []"
      using fr by simp
    then have pi: "process_incoming ?os ?s0 =
        Normal (?s0\<lparr>incoming := [],
                  trace := trace ?s0 @ (if payload = [] then [] else [WritePty payload])\<rparr>)"
      by (rule process_incoming_data_frame)
    have "iteration ?os s =
        Normal (?s0\<lparr>incoming := [],
                  trace := trace ?s0 @ (if payload = [] then [] else [WritePty payload])\<rparr>
                \<lparr>trace := trace (?s0\<lparr>incoming := [],
                  trace := trace ?s0 @ (if payload = [] then [] else [WritePty payload])\<rparr>)
                    @ [WaitpidNohang]\<rparr>)"
      using quiet by (intro iteration_stdin_chunk [OF reg quiet os alive c pi]) simp_all
    with True show ?thesis by simp
  next
    case False
    then have rest: "concat cs \<noteq> []"
      using Cons.prems by (cases cs) auto
    have "(incoming s @ c) @ concat cs = fr"
      using Cons.prems by simp
    with fr rest have "decode_next (incoming ?s0) = NeedMoreBytes"
      using proper_prefix_needs_more [of "incoming s @ c" "concat cs" payload] by simp
    then have pi: "process_incoming ?os ?s0 = Normal ?s0"
      by (rule process_incoming_need_more)
    have it: "iteration ?os s = Normal (?s0\<lparr>trace := trace ?s0 @ [WaitpidNohang]\<rparr>)"
      using quiet by (intro iteration_stdin_chunk [OF reg quiet os alive c pi]) simp_all
    let ?s1 = "?s0\<lparr>trace := trace ?s0 @ [WaitpidNohang]\<rparr>"
    have "run (map (\<lambda>c. os\<lparr>stdin_ready := Some c\<rparr>) cs) ?s1 =
      Normal (?s1\<lparr>incoming := [],
                trace := trace ?s1
                  @ concat (replicate (length cs - 1) [Select True, ReadStdin, WaitpidNohang])
                  @ [Select True, ReadStdin]
                  @ (if payload = [] then [] else [WritePty payload])
                  @ [WaitpidNohang]\<rparr>)"
      using False Cons.prems by (intro Cons.IH) simp_all
    moreover have "length cs - 1 + 1 = length cs"
      using False by (cases cs) auto
    then have "replicate (length cs) [Select True, ReadStdin, WaitpidNohang] =
       [Select True, ReadStdin, WaitpidNohang]
         # replicate (length cs - 1) [Select True, ReadStdin, WaitpidNohang]"
      by (metis Suc_eq_plus1 replicate_Suc)
    ultimately show ?thesis
      using it by simp
  qed
qed

lemma select_unregistered:
  "selector_select False os = (case pty_ready os of Some r \<Rightarrow> [PtyReady r] | None \<Rightarrow> [])"
  by (simp add: selector_select_def Let_def split: option.splits)

lemma handle_pty_cases:
  "handle_key os (PtyReady r) s =
     (case r of
        Inl e \<Rightarrow>
          if is_OSError e
          then Return (exit_code_from_status os (wait_blocking os))
                 (s\<lparr>trace := trace s @ [ReadPty, WaitpidBlocking]\<rparr>)
          else Raise e (s\<lparr>trace := trace s @ [ReadPty]\<rparr>)
      | Inr d \<Rightarrow>
          if d \<noteq> [] then Normal (s\<lparr>trace := trace s @ [ReadPty, WriteStdout d]\<rparr>)
          else Return (exit_code_from_status os (wait_blocking os))
                 (s\<lparr>trace := trace s @ [ReadPty, WaitpidBlocking]\<rparr>))"
  by (simp add: log_call_def split: sum.splits)

lemma close_phase_cases:
  "close_phase os s =
     (if should_close s then
        (if kill_error os = None \<or> kill_error os = Some ProcessLookupError
         then Normal (s\<lparr>should_close := False, trace := trace s @ [Kill (child_pid s) SIGHUP]\<rparr>)
         else Raise (the (kill_error os)) (s\<lparr>trace := trace s @ [Kill (child_pid s) SIGHUP]\<rparr>))
      else Normal s)"
  by (auto simp: close_phase_def os_kill_def log_call_def Let_def split: option.splits)

lemma reap_poll_cases:
  "reap_poll os s =
     (if fst (wait_nohang os) = child_pid s
      then Return (exit_code_from_status os (snd (wait_nohang os)))
             (s\<lparr>trace := trace s @ [WaitpidNohang]\<rparr>)
      else Normal (s\<lparr>trace := trace s @ [WaitpidNohang]\<rparr>))"
  by (cases "wait_nohang os") (simp add: reap_poll_def log_call_def Let_def)

lemma iteration_unregistered:
  assumes "\<not> stdin_registered s"
  shows "\<exists>ev. trace (session_of (iteration os s)) = trace s @ ev
    \<and> ReadStdin \<notin> set ev \<and> UnregisterStdin \<notin> set ev \<and> Select True \<notin> set ev
    \<and> (\<forall>p. WritePty p \<notin> set ev)
    \<and> \<not> stdin_registered (session_of (iteration os s))"
  using assms
  by (auto simp: iteration_def select_unregistered handle_pty_cases close_phase_cases
      reap_poll_cases log_call_def
      simp del: handle_key.simps
      split: option.splits sum.splits)

lemma run_unregistered:
  "\<not> stdin_registered s \<Longrightarrow>
   \<exists>ev. trace (session_of (run oss s)) = trace s @ ev
    \<and> ReadStdin \<notin> set ev \<and> UnregisterStdin \<notin> set ev \<and> Select True \<notin> set ev
    \<and> (\<forall>p. WritePty p \<notin> set ev)
    \<and> \<not> stdin_registered (session_of (run oss s))"
proof (induction oss arbitrary: s)
  case Nil
  then show ?case by simp
next
  case (Cons os oss)
  from iteration_unregistered [OF Cons.prems, of os] obtain ev where
    ev: "trace (session_of (iteration os s)) = trace s @ ev"
      "ReadStdin \<notin> set ev" "UnregisterStdin \<notin> set ev" "Select True \<notin> set ev"
      "\<forall>p. WritePty p \<notin> set ev"
      "\<not> stdin_registered (session_of (iteration os s))"
    by blast
  show ?case
  proof (cases "iteration os s")
    case (Normal s')
    with ev have "\<not> stdin_registered s'" by simp
    from Cons.IH [OF this] obtain ev' where
      ev': "trace (session_of (run oss s')) = trace s' @ ev'"
        "ReadStdin \<notin> set ev'" "UnregisterStdin \<notin> set ev'" "Select True \<notin> set ev'"
        "\<forall>p. WritePty p \<notin> set ev'"
        "\<not> stdin_registered (session_of (run oss s'))"
      by blast
    from Normal ev ev' have "trace (session_of (run (os # oss) s)) = trace s @ (ev @ ev')"
      by simp
    with Normal ev ev' show ?thesis
      by (intro exI [of _ "ev @ ev'"]) simp
  next
    case (Break s')
    with ev show ?thesis by (intro exI [of _ ev]) simp
  next
    case (Return c s')
    with ev show ?thesis by (intro exI [of _ ev]) simp
  next
    case (Raise e s')
    with ev show ?thesis by (intro exI [of _ ev]) simp
  qed
qed

lemma iteration_after_eof:
  assumes "stdin_ready os = Some []" "iteration os s = Normal s'" "stdin_registered s"
  shows "\<not> stdin_registered s'"
  using assms
  by (auto simp: iteration_def selector_select_def Let_def handle_pty_cases close_phase_cases
      reap_poll_cases log_call_def
      simp del: handle_key.simps(2)
      split: option.splits sum.splits if_splits)

















subsection \<open>The claims\<close>

text \<open>
  Claim C1. A buffer that starts with \<open>0x01\<close> and holds at least \<open>5 + n\<close> bytes, \<open>n\<close>
  being the big-endian value of the bytes at offsets 1 to 4, decodes to a \<open>Data\<close> frame
  whose payload is the bytes at offsets 5 to \<open>5 + n - 1\<close>. The pass removes these
  \<open>5 + n\<close> bytes from the front and keeps the rest as it is, and it writes the payload to
  the PTY master when the payload is not empty, and writes nothing when it is.
\<close>

theorem data_frame_consumed_and_written:
  assumes first: "buf \<noteq> []" "hd buf = 0x01"
    and n: "n = unat (buf ! 1) * 2 ^ 24 + unat (buf ! 2) * 2 ^ 16 + unat (buf ! 3) * 2 ^ 8 + unat (buf ! 4)"
    and len: "5 + n \<le> length buf"
    and payload: "payload = map ((!) buf) [5..<5 + n]"
    and s: "incoming s = buf"
  shows "decode_next buf = Frame (Data payload) (drop (5 + n) buf)
    \<and> buf = take 5 buf @ payload @ drop (5 + n) buf
    \<and> loop_body os s =
        Normal (s\<lparr>incoming := drop (5 + n) buf,
                  trace := trace s @ (if payload \<noteq> [] then [WritePty payload] else [])\<rparr>)"
proof -
  from len have five: "5 \<le> length buf" by simp
  have pl: "py_slice 5 (5 + n) buf = payload"
    using len payload by (simp add: slice_nth)
  have dec: "decode_next buf = Frame (Data payload) (drop (5 + n) buf)"
    using decode_next_data [OF first five _ len, of ] n pl by simp
  have "take (5 + n) buf = take 5 buf @ payload"
    using pl by (simp add: py_slice_def take_add)
  then have split: "buf = take 5 buf @ payload @ drop (5 + n) buf"
    by (metis append_assoc append_take_drop_id)
  have body: "loop_body os s =
        Normal (s\<lparr>incoming := drop (5 + n) buf,
                  trace := trace s @ (if payload \<noteq> [] then [WritePty payload] else [])\<rparr>)"
    using dec s by (simp add: loop_body_def log_call_def)
  from dec split body show ?thesis by blast
qed

theorem data_frame_consumed_and_written_witness:
  "decode_next [0x01, 0, 0, 0, 2, 0x68, 0x69, 0x03] = Frame (Data [0x68, 0x69]) [0x03]
   \<and> loop_body linux_os (session0\<lparr>incoming := [0x01, 0, 0, 0, 2, 0x68, 0x69, 0x03]\<rparr>) =
       Normal (session0\<lparr>incoming := [0x03], trace := [WritePty [0x68, 0x69]]\<rparr>)
   \<and> loop_body linux_os (session0\<lparr>incoming := [0x01, 0, 0, 0, 0, 0x03]\<rparr>) =
       Normal (session0\<lparr>incoming := [0x03], trace := []\<rparr>)"
proof -
  let ?b = "[0x01, 0, 0, 0, 2, 0x68, 0x69, 0x03] :: byte list"
  let ?c = "[0x01, 0, 0, 0, 0, 0x03] :: byte list"
  have u: "[5..<7] = [5, 6]" by (simp add: upt_rec)
  have 1: "decode_next ?b = Frame (Data [0x68, 0x69]) [0x03]
    \<and> loop_body linux_os (session0\<lparr>incoming := ?b\<rparr>) =
       Normal (session0\<lparr>incoming := [0x03], trace := [WritePty [0x68, 0x69]]\<rparr>)"
    using data_frame_consumed_and_written
      [of ?b 2 "[0x68, 0x69]" "session0\<lparr>incoming := ?b\<rparr>" linux_os]
    by (simp add: u session0_def)
  have 2: "loop_body linux_os (session0\<lparr>incoming := ?c\<rparr>) =
       Normal (session0\<lparr>incoming := [0x03], trace := []\<rparr>)"
    using data_frame_consumed_and_written
      [of ?c 0 "[]" "session0\<lparr>incoming := ?c\<rparr>" linux_os]
    by (simp add: session0_def)
  from 1 2 show ?thesis by simp
qed

text \<open>
  Claim C2. For a wait status that is not both "exited" and "signalled",
  \<open>_exit_code_from_status\<close> is the exit code of a normal exit, 128 plus the signal number
  of a death by signal, and 1 for every other status; exit code 0 gives 0 and signal 9
  gives 137.
\<close>

theorem exit_code_from_status_cases:
  assumes "\<not> (WIFEXITED os st \<and> WIFSIGNALED os st)"
  shows "(WIFEXITED os st \<longrightarrow> exit_code_from_status os st = WEXITSTATUS os st)
    \<and> (WIFSIGNALED os st \<longrightarrow> exit_code_from_status os st = 128 + WTERMSIG os st)
    \<and> (\<not> WIFEXITED os st \<and> \<not> WIFSIGNALED os st \<longrightarrow> exit_code_from_status os st = 1)
    \<and> (WIFEXITED os st \<and> WEXITSTATUS os st = 0 \<longrightarrow> exit_code_from_status os st = 0)
    \<and> (WIFSIGNALED os st \<and> WTERMSIG os st = 9 \<longrightarrow> exit_code_from_status os st = 137)"
  using assms by (auto simp: exit_code_from_status_def)

theorem exit_code_from_status_cases_witness:
  "exit_code_from_status linux_os 0 = 0
   \<and> exit_code_from_status linux_os 9 = 137
   \<and> exit_code_from_status linux_os 768 = 3
   \<and> exit_code_from_status linux_os 4991 = 1"
  using exit_code_from_status_cases [of linux_os 0]
    exit_code_from_status_cases [of linux_os 9]
    exit_code_from_status_cases [of linux_os 768]
    exit_code_from_status_cases [of linux_os 4991]
  by (simp add: linux_os_def)

text \<open>
  Claim C3. When the first byte of the buffer is none of \<open>0x01\<close>, \<open>0x02\<close>, \<open>0x03\<close>, one
  pass removes that byte alone and keeps the rest as it is, and the loop goes on with the
  rest at once; when the rest starts with a complete frame, the loop handles that frame
  next and then goes on behind it.
\<close>

theorem unknown_opcode_skips_one_byte:
  assumes unknown: "b \<noteq> 0x01" "b \<noteq> 0x02" "b \<noteq> 0x03"
    and s: "incoming s = b # rest"
  shows "decode_next (b # rest) = Skipped rest
    \<and> loop_body os s = Normal (s\<lparr>incoming := rest\<rparr>)
    \<and> process_incoming os s = process_incoming os (s\<lparr>incoming := rest\<rparr>)
    \<and> (\<forall>f tail. decode_next rest = Frame f tail \<longrightarrow>
          process_incoming os s =
            (case dispatch os f (s\<lparr>incoming := tail\<rparr>) of
               Normal s' \<Rightarrow> process_incoming os s'
             | other \<Rightarrow> other))"
proof -
  have dec: "decode_next (b # rest) = Skipped rest"
    using unknown by (rule decode_next_unknown)
  then have body: "loop_body os s = Normal (s\<lparr>incoming := rest\<rparr>)"
    using s by (simp add: loop_body_def)
  then have loop: "process_incoming os s = process_incoming os (s\<lparr>incoming := rest\<rparr>)"
    by (subst process_incoming.simps) simp
  have "process_incoming os s =
            (case dispatch os f (s\<lparr>incoming := tail\<rparr>) of
               Normal s' \<Rightarrow> process_incoming os s'
             | other \<Rightarrow> other)"
    if f: "decode_next rest = Frame f tail" for f tail
  proof -
    have not_break: "dispatch os f (s\<lparr>incoming := tail\<rparr>) \<noteq> Break s'" for s'
      using dispatch_kind [of os f "s\<lparr>incoming := tail\<rparr>"] by auto
    have "loop_body os (s\<lparr>incoming := rest\<rparr>) = dispatch os f (s\<lparr>incoming := tail\<rparr>)"
      using f by (simp add: loop_body_def)
    then have "process_incoming os (s\<lparr>incoming := rest\<rparr>) =
            (case dispatch os f (s\<lparr>incoming := tail\<rparr>) of
               Normal s' \<Rightarrow> process_incoming os s'
             | other \<Rightarrow> other)"
      using not_break
      by (subst process_incoming.simps) (simp split: control.splits)
    with loop show ?thesis by simp
  qed
  with dec body loop show ?thesis by blast
qed

theorem unknown_opcode_skips_one_byte_witness:
  "decode_next [0xFF, 0x01, 0, 0, 0, 2, 0x68, 0x69] = Skipped [0x01, 0, 0, 0, 2, 0x68, 0x69]
   \<and> decode_next [0x01, 0, 0, 0, 2, 0x68, 0x69] = Frame (Data [0x68, 0x69]) []
   \<and> process_incoming linux_os (session0\<lparr>incoming := [0xFF, 0x01, 0, 0, 0, 2, 0x68, 0x69]\<rparr>) =
       Normal (session0\<lparr>incoming := [], trace := [WritePty [0x68, 0x69]]\<rparr>)"
proof -
  let ?r = "[0x01, 0, 0, 0, 2, 0x68, 0x69] :: byte list"
  have d: "decode_next ?r = Frame (Data [0x68, 0x69]) []"
    by (simp add: decode_next_def OPCODE_DATA_def py_slice_def)
  have e: "process_incoming linux_os (session0\<lparr>incoming := [], trace := [WritePty [0x68, 0x69]]\<rparr>)
      = Normal (session0\<lparr>incoming := [], trace := [WritePty [0x68, 0x69]]\<rparr>)"
    by (rule process_incoming_empty) simp
  note inst = unknown_opcode_skips_one_byte
      [of "0xFF" "session0\<lparr>incoming := 0xFF # ?r\<rparr>" ?r linux_os, simplified]
  from inst have skip: "decode_next (0xFF # ?r) = Skipped ?r"
    by simp
  from inst d have "process_incoming linux_os (session0\<lparr>incoming := 0xFF # ?r\<rparr>) =
      (case dispatch linux_os (Data [0x68, 0x69]) (session0\<lparr>incoming := []\<rparr>) of
         Normal s' \<Rightarrow> process_incoming linux_os s'
       | other \<Rightarrow> other)"
    by blast
  with e have "process_incoming linux_os (session0\<lparr>incoming := 0xFF # ?r\<rparr>) =
      Normal (session0\<lparr>incoming := [], trace := [WritePty [0x68, 0x69]]\<rparr>)"
    by (simp add: log_call_def session0_def)
  with skip d show ?thesis by simp
qed

text \<open>
  Claim C9. Every pass of the inner loop either shortens the buffer by at least one byte
  or leaves the loop with the buffer untouched because more bytes are needed; the loop
  ends within as many passes as the buffer has bytes, plus one.
\<close>

theorem inner_loop_terminates:
  "(case loop_body os s of
      Normal s' \<Rightarrow> length (incoming s') < length (incoming s)
    | Break s' \<Rightarrow> s' = s \<and> decode_next (incoming s) = NeedMoreBytes
    | Return c s' \<Rightarrow> False
    | Raise e s' \<Rightarrow> length (incoming s') < length (incoming s))
   \<and> process_incoming_fuel (length (incoming s) + 1) os s = Some (process_incoming os s)"
proof -
  have fuel: "process_incoming_fuel (length (incoming s) + 1) os s = Some (process_incoming os s)"
    by (rule fuel_enough) simp
  have pass: "(case loop_body os s of
      Normal s' \<Rightarrow> length (incoming s') < length (incoming s)
    | Break s' \<Rightarrow> s' = s \<and> decode_next (incoming s) = NeedMoreBytes
    | Return c s' \<Rightarrow> False
    | Raise e s' \<Rightarrow> length (incoming s') < length (incoming s))"
  proof (cases "decode_next (incoming s)")
    case NeedMoreBytes
    then show ?thesis by (simp add: loop_body_def)
  next
    case (DecodeError e)
    then show ?thesis by (simp add: decode_next_never_fails)
  next
    case (Skipped rest)
    then have "length rest < length (incoming s)"
      by (auto simp: decode_next_def split: list.splits if_splits sum.splits prod.splits)
    with Skipped show ?thesis by (simp add: loop_body_def)
  next
    case (Frame f rest)
    then have len: "length rest < length (incoming s)"
      by (auto simp: decode_next_def split: list.splits if_splits sum.splits prod.splits)
    have "incoming (session_of (dispatch os f (s\<lparr>incoming := rest\<rparr>))) = rest"
      by (rule dispatch_incoming [where s = "s\<lparr>incoming := rest\<rparr>", simplified])
    with len Frame show ?thesis
      using dispatch_kind [of os f "s\<lparr>incoming := rest\<rparr>"]
      by (cases "dispatch os f (s\<lparr>incoming := rest\<rparr>)") (simp_all add: loop_body_def)
  qed
  from pass fuel show ?thesis by blast
qed

theorem inner_loop_terminates_witness:
  "process_incoming_fuel 6 linux_os (session0\<lparr>incoming := [0xFF, 0x03, 0x02, 0, 80]\<rparr>) =
     Some (Normal (session0\<lparr>incoming := [0x02, 0, 80], should_close := True\<rparr>))
   \<and> process_incoming linux_os (session0\<lparr>incoming := [0xFF, 0x03, 0x02, 0, 80]\<rparr>) =
     Normal (session0\<lparr>incoming := [0x02, 0, 80], should_close := True\<rparr>)"
proof -
  let ?s = "session0\<lparr>incoming := [0xFF, 0x03, 0x02, 0, 80]\<rparr>"
  have f: "process_incoming linux_os ?s =
     Normal (session0\<lparr>incoming := [0x02, 0, 80], should_close := True\<rparr>)"
    by (simp add: process_incoming.simps loop_body_def decode_next_def OPCODE_DATA_def
        OPCODE_RESIZE_def OPCODE_CLOSE_def session0_def)
  have g: "process_incoming_fuel (length (incoming ?s) + 1) linux_os ?s =
      Some (process_incoming linux_os ?s)"
    using inner_loop_terminates [where os = linux_os and s = ?s] by (rule conjunct2)
  have l: "length (incoming ?s) + 1 = 6"
    by simp
  from g [unfolded l] f show ?thesis by simp
qed

text \<open>
  Claim C6. A RESIZE frame with the fields \<open>cols\<close> and \<open>rows\<close> makes the pass issue the
  \<open>TIOCSWINSZ\<close> call with these rows and columns and both pixel sizes zero, and then the
  \<open>SIGWINCH\<close> signal to the child, in this order and nothing else; this holds for the
  frame as it is decoded from the five bytes on the wire and for any frame with 16-bit
  fields.
\<close>

theorem resize_sets_window_then_signals:
  "decode_next (0x02 # c1 # c0 # r1 # r0 # rest) =
     Frame (Resize (unat c1 * 256 + unat c0) (unat r1 * 256 + unat r0)) rest
   \<and> session_of (loop_body os (s\<lparr>incoming := 0x02 # c1 # c0 # r1 # r0 # rest\<rparr>)) =
       s\<lparr>incoming := rest,
         trace := trace s @
           [Ioctl_TIOCSWINSZ \<lparr>ws_row = unat r1 * 256 + unat r0, ws_col = unat c1 * 256 + unat c0,
                              ws_xpixel = 0, ws_ypixel = 0\<rparr>,
            Kill (child_pid s) SIGWINCH]\<rparr>
   \<and> (cols < 65536 \<and> rows < 65536 \<longrightarrow>
        session_of (dispatch os (Resize cols rows) s) =
          s\<lparr>trace := trace s @
             [Ioctl_TIOCSWINSZ \<lparr>ws_row = rows, ws_col = cols, ws_xpixel = 0, ws_ypixel = 0\<rparr>,
              Kill (child_pid s) SIGWINCH]\<rparr>)"
proof -
  have d: "cols < 65536 \<and> rows < 65536 \<longrightarrow>
        session_of (dispatch os (Resize cols rows) s) =
          s\<lparr>trace := trace s @
             [Ioctl_TIOCSWINSZ \<lparr>ws_row = rows, ws_col = cols, ws_xpixel = 0, ws_ypixel = 0\<rparr>,
              Kill (child_pid s) SIGWINCH]\<rparr>"
    by (auto simp: dispatch_resize Let_def simp del: dispatch.simps split: option.splits)
  have b: "session_of (loop_body os (s\<lparr>incoming := 0x02 # c1 # c0 # r1 # r0 # rest\<rparr>)) =
       s\<lparr>incoming := rest,
         trace := trace s @
           [Ioctl_TIOCSWINSZ \<lparr>ws_row = unat r1 * 256 + unat r0, ws_col = unat c1 * 256 + unat c0,
                              ws_xpixel = 0, ws_ypixel = 0\<rparr>,
            Kill (child_pid s) SIGWINCH]\<rparr>"
    using u16_bound [of c1 c0] u16_bound [of r1 r0]
    by (simp add: loop_body_def decode_next_resize dispatch_resize Let_def
        del: dispatch.simps split: option.splits)
  from decode_next_resize d b show ?thesis by blast
qed

theorem resize_sets_window_then_signals_witness:
  "decode_next [0x02, 0, 80, 0, 24] = Frame (Resize 80 24) []
   \<and> session_of (loop_body linux_os (session0\<lparr>incoming := [0x02, 0, 80, 0, 24]\<rparr>)) =
       session0\<lparr>trace :=
           [Ioctl_TIOCSWINSZ \<lparr>ws_row = 24, ws_col = 80, ws_xpixel = 0, ws_ypixel = 0\<rparr>,
            Kill 4242 SIGWINCH]\<rparr>
   \<and> session_of (dispatch linux_os (Resize 80 24) session0) =
       session0\<lparr>trace :=
           [Ioctl_TIOCSWINSZ \<lparr>ws_row = 24, ws_col = 80, ws_xpixel = 0, ws_ypixel = 0\<rparr>,
            Kill 4242 SIGWINCH]\<rparr>"
  using resize_sets_window_then_signals
    [where ?c1.0 = 0 and ?c0.0 = 80 and ?r1.0 = 0 and ?r0.0 = 24 and rest = "[]"
       and os = linux_os and s = session0 and cols = 80 and rows = 24]
  by (simp add: session0_def)

text \<open>
  Claim C7. A read from the PTY master that returns no bytes and one that raises an
  \<open>OSError\<close> are handled alike: the blocking \<open>waitpid\<close> follows at once and \<open>main\<close>
  returns the mapped exit status; no later key, close request or reap poll is handled in
  that pass, and the error is not raised further.
\<close>

theorem pty_read_failure_is_eof:
  assumes r: "r = Inr [] \<or> (\<exists>e. r = Inl e \<and> is_OSError e)"
  shows "handle_key os (PtyReady r) s =
      Return (exit_code_from_status os (wait_blocking os))
        (s\<lparr>trace := trace s @ [ReadPty, WaitpidBlocking]\<rparr>)
    \<and> handle_key os (PtyReady r) s = handle_key os (PtyReady (Inr [])) s
    \<and> for_keys os (PtyReady r # ks) s = handle_key os (PtyReady r) s
    \<and> (pty_ready os = Some r \<longrightarrow>
         iteration os s =
           (case for_keys os
                   (if pty_first os then [] else selector_select (stdin_registered s) (os\<lparr>pty_ready := None\<rparr>))
                   (s\<lparr>trace := trace s @ [Select (stdin_registered s)]\<rparr>) of
              Normal s1 \<Rightarrow>
                Return (exit_code_from_status os (wait_blocking os))
                  (s1\<lparr>trace := trace s1 @ [ReadPty, WaitpidBlocking]\<rparr>)
            | other \<Rightarrow> other))"
proof -
  have h: "handle_key os (PtyReady r) s =
      Return (exit_code_from_status os (wait_blocking os))
        (s\<lparr>trace := trace s @ [ReadPty, WaitpidBlocking]\<rparr>)" for s
    using r by (auto simp: log_call_def)
  then have same: "handle_key os (PtyReady r) s = handle_key os (PtyReady (Inr [])) s"
    by (simp add: log_call_def)
  have keys: "for_keys os (PtyReady r # ks) s = handle_key os (PtyReady r) s"
    by (simp add: h del: handle_key.simps)
  have it: "iteration os s =
           (case for_keys os
                   (if pty_first os then [] else selector_select (stdin_registered s) (os\<lparr>pty_ready := None\<rparr>))
                   (s\<lparr>trace := trace s @ [Select (stdin_registered s)]\<rparr>) of
              Normal s1 \<Rightarrow>
                Return (exit_code_from_status os (wait_blocking os))
                  (s1\<lparr>trace := trace s1 @ [ReadPty, WaitpidBlocking]\<rparr>)
            | other \<Rightarrow> other)"
    if p: "pty_ready os = Some r"
  proof (cases "pty_first os")
    case True
    then obtain ks where "selector_select (stdin_registered s) os = PtyReady r # ks"
      using p by (simp add: selector_select_def)
    with True show ?thesis
      by (simp add: iteration_def h log_call_def del: handle_key.simps)
  next
    case False
    then have "selector_select (stdin_registered s) os =
        selector_select (stdin_registered s) (os\<lparr>pty_ready := None\<rparr>) @ [PtyReady r]"
      using p by (simp add: selector_select_def)
    with False show ?thesis
      by (simp add: iteration_def for_keys_append h log_call_def del: handle_key.simps
          split: control.splits)
  qed
  from h same keys it show ?thesis by blast
qed

theorem pty_read_failure_is_eof_witness:
  "iteration (linux_os\<lparr>pty_ready := Some (Inl OtherOSError), wait_blocking := 9\<rparr>) session0 =
     Return 137 (session0\<lparr>trace := [Select True, ReadPty, WaitpidBlocking]\<rparr>)
   \<and> iteration (linux_os\<lparr>pty_ready := Some (Inr []), wait_blocking := 9\<rparr>) session0 =
     Return 137 (session0\<lparr>trace := [Select True, ReadPty, WaitpidBlocking]\<rparr>)
   \<and> handle_key linux_os (PtyReady (Inl OtherOSError)) session0 =
     handle_key linux_os (PtyReady (Inr [])) session0"
proof -
  let ?e = "linux_os\<lparr>pty_ready := Some (Inl OtherOSError), wait_blocking := 9\<rparr>"
  let ?z = "linux_os\<lparr>pty_ready := Some (Inr []), wait_blocking := 9\<rparr>"
  have code: "exit_code_from_status ?e 9 = 137" "exit_code_from_status ?z 9 = 137"
    by (simp_all add: exit_code_from_status_def linux_os_def)
  have keys: "selector_select True (?e\<lparr>pty_ready := None\<rparr>) = []"
    "selector_select True (?z\<lparr>pty_ready := None\<rparr>) = []"
    by (simp_all add: selector_select_def linux_os_def)
  have 1: "iteration ?e session0 =
     Return 137 (session0\<lparr>trace := [Select True, ReadPty, WaitpidBlocking]\<rparr>)"
    using pty_read_failure_is_eof [of "Inl OtherOSError" ?e session0] code keys
    by (simp add: session0_def)
  have 2: "iteration ?z session0 =
     Return 137 (session0\<lparr>trace := [Select True, ReadPty, WaitpidBlocking]\<rparr>)"
    using pty_read_failure_is_eof [of "Inr []" ?z session0] code keys
    by (simp add: session0_def)
  have 3: "handle_key linux_os (PtyReady (Inl OtherOSError)) session0 =
     handle_key linux_os (PtyReady (Inr [])) session0"
  proof -
    have "Inl OtherOSError = Inr [] \<or> (\<exists>e. Inl OtherOSError = Inl e \<and> is_OSError e)"
      by simp
    from pty_read_failure_is_eof [OF this, of linux_os session0 "[]"] show ?thesis
      by blast
  qed
  from 1 2 3 show ?thesis by simp
qed

text \<open>
  Claim C10. When \<open>os.kill\<close> raises \<open>ProcessLookupError\<close>, the close request still ends
  normally (the \<open>SIGHUP\<close> call is made, the error is dropped, the flag is cleared), but a
  RESIZE frame ends the pass, the inner loop and \<open>main\<close> with that error, after the
  \<open>TIOCSWINSZ\<close> and \<open>SIGWINCH\<close> calls.
\<close>

theorem dead_child_tolerated_on_close_not_on_resize:
  assumes gone: "kill_error os = Some ProcessLookupError"
    and buf: "buf = 0x02 # c1 # c0 # r1 # r0 # rest"
    and ws: "ws = \<lparr>ws_row = unat r1 * 256 + unat r0, ws_col = unat c1 * 256 + unat c0,
                    ws_xpixel = 0, ws_ypixel = 0\<rparr>"
  shows "close_phase os (s\<lparr>should_close := True\<rparr>) =
      Normal (s\<lparr>should_close := False, trace := trace s @ [Kill (child_pid s) SIGHUP]\<rparr>)
    \<and> loop_body os (s\<lparr>incoming := buf\<rparr>) =
        Raise ProcessLookupError
          (s\<lparr>incoming := rest,
             trace := trace s @ [Ioctl_TIOCSWINSZ ws, Kill (child_pid s) SIGWINCH]\<rparr>)
    \<and> process_incoming os (s\<lparr>incoming := buf\<rparr>) =
        Raise ProcessLookupError
          (s\<lparr>incoming := rest,
             trace := trace s @ [Ioctl_TIOCSWINSZ ws, Kill (child_pid s) SIGWINCH]\<rparr>)
    \<and> (stdin_registered s \<and> incoming s = [] \<and> stdin_ready os = Some buf
          \<and> (pty_ready os = None \<or> \<not> pty_first os) \<longrightarrow>
        run (os # oss) s =
          Raise ProcessLookupError
            (s\<lparr>incoming := rest,
               trace := trace s @
                 [Select True, ReadStdin, Ioctl_TIOCSWINSZ ws, Kill (child_pid s) SIGWINCH]\<rparr>))"
proof -
  have c: "close_phase os (s\<lparr>should_close := True\<rparr>) =
      Normal (s\<lparr>should_close := False, trace := trace s @ [Kill (child_pid s) SIGHUP]\<rparr>)"
    using gone by (simp add: close_phase_def os_kill_def log_call_def)
  have b: "loop_body os (s\<lparr>incoming := buf\<rparr>) =
      Raise ProcessLookupError
        (s\<lparr>incoming := rest,
           trace := trace s @ [Ioctl_TIOCSWINSZ ws, Kill (child_pid s) SIGWINCH]\<rparr>)" for s
    using gone buf ws u16_bound [of c1 c0] u16_bound [of r1 r0]
    by (simp add: loop_body_def decode_next_resize dispatch_resize Let_def
        del: dispatch.simps)
  have p: "process_incoming os (s\<lparr>incoming := buf\<rparr>) =
      Raise ProcessLookupError
        (s\<lparr>incoming := rest,
           trace := trace s @ [Ioctl_TIOCSWINSZ ws, Kill (child_pid s) SIGWINCH]\<rparr>)" for s
    using b [of s] by (rule process_incoming_raise)
  have r: "run (os # oss) s =
          Raise ProcessLookupError
            (s\<lparr>incoming := rest,
               trace := trace s @
                 [Select True, ReadStdin, Ioctl_TIOCSWINSZ ws, Kill (child_pid s) SIGWINCH]\<rparr>)"
    if reg: "stdin_registered s" and empty: "incoming s = []"
      and ready: "stdin_ready os = Some buf"
      and order: "pty_ready os = None \<or> \<not> pty_first os"
  proof -
    have "\<exists>ks. selector_select True os = StdinReady buf # ks"
      using ready order by (auto simp: selector_select_def Let_def split: option.splits)
    then obtain ks where keys: "selector_select True os = StdinReady buf # ks" ..
    have "handle_key os (StdinReady buf) (s\<lparr>trace := trace s @ [Select True]\<rparr>) =
        process_incoming os (s\<lparr>trace := trace s @ [Select True, ReadStdin], incoming := buf\<rparr>)"
      using buf empty by (simp add: log_call_def)
    also have "\<dots> = Raise ProcessLookupError
            (s\<lparr>incoming := rest,
               trace := trace s @
                 [Select True, ReadStdin, Ioctl_TIOCSWINSZ ws, Kill (child_pid s) SIGWINCH]\<rparr>)"
      using p [of "s\<lparr>trace := trace s @ [Select True, ReadStdin]\<rparr>"] by simp
    finally show ?thesis
      using reg keys by (simp add: iteration_def log_call_def del: handle_key.simps)
  qed
  from c b [of s] p [of s] r show ?thesis by blast
qed

theorem dead_child_tolerated_on_close_not_on_resize_witness:
  "close_phase (linux_os\<lparr>kill_error := Some ProcessLookupError\<rparr>) (session0\<lparr>should_close := True\<rparr>) =
     Normal (session0\<lparr>trace := [Kill 4242 SIGHUP]\<rparr>)
   \<and> run [linux_os\<lparr>kill_error := Some ProcessLookupError,
                    stdin_ready := Some [0x02, 0, 80, 0, 24, 0x03]\<rparr>] session0 =
     Raise ProcessLookupError
       (session0\<lparr>incoming := [0x03],
          trace := [Select True, ReadStdin,
                    Ioctl_TIOCSWINSZ \<lparr>ws_row = 24, ws_col = 80, ws_xpixel = 0, ws_ypixel = 0\<rparr>,
                    Kill 4242 SIGWINCH]\<rparr>)"
proof -
  let ?os = "linux_os\<lparr>kill_error := Some ProcessLookupError,
                     stdin_ready := Some [0x02, 0, 80, 0, 24, 0x03]\<rparr>"
  have k: "kill_error ?os = Some ProcessLookupError"
    by simp
  have e: "pty_ready ?os = None" "stdin_ready ?os = Some [0x02, 0, 80, 0, 24, 0x03]"
    by (simp_all add: linux_os_def)
  have 1: "close_phase (linux_os\<lparr>kill_error := Some ProcessLookupError\<rparr>)
       (session0\<lparr>should_close := True\<rparr>) =
     Normal (session0\<lparr>trace := [Kill 4242 SIGHUP]\<rparr>)"
    using dead_child_tolerated_on_close_not_on_resize
      [where os = "linux_os\<lparr>kill_error := Some ProcessLookupError\<rparr>" and s = session0,
        OF _ refl refl]
    by (simp add: session0_def)
  have 2: "run [?os] session0 =
     Raise ProcessLookupError
       (session0\<lparr>incoming := [0x03],
          trace := [Select True, ReadStdin,
                    Ioctl_TIOCSWINSZ \<lparr>ws_row = 24, ws_col = 80, ws_xpixel = 0, ws_ypixel = 0\<rparr>,
                    Kill 4242 SIGWINCH]\<rparr>)"
    using dead_child_tolerated_on_close_not_on_resize
      [where os = ?os and s = session0 and oss = "[]"
         and ?c1.0 = 0 and ?c0.0 = 80 and ?r1.0 = 0 and ?r0.0 = 24 and rest = "[0x03]",
        OF k refl refl] e
    by (simp add: session0_def)
  from 1 2 show ?thesis by simp
qed

text \<open>
  Claim C4. A buffer that starts with \<open>0x01\<close> and is shorter than the five header bytes
  or than the header and the declared payload, or that starts with \<open>0x02\<close> and is shorter
  than five bytes, needs more bytes: the pass breaks out of the inner loop and the buffer
  stays as it is. Hence a DATA frame that arrives in any number of non-empty reads from
  standard input, one read in each pass of the outer loop, is written to the PTY master
  once, whole, in the pass of the last read (and not at all when its payload is empty).
\<close>

theorem incomplete_frame_left_untouched:
  "((buf \<noteq> [] \<and> hd buf = 0x01 \<and>
       (length buf < 5 \<or>
        5 \<le> length buf \<and>
        length buf < 5 + (unat (buf ! 1) * 2 ^ 24 + unat (buf ! 2) * 2 ^ 16
                          + unat (buf ! 3) * 2 ^ 8 + unat (buf ! 4)))
     \<or> buf \<noteq> [] \<and> hd buf = 0x02 \<and> length buf < 5) \<longrightarrow>
    decode_next buf = NeedMoreBytes
    \<and> loop_body os (s\<lparr>incoming := buf\<rparr>) = Break (s\<lparr>incoming := buf\<rparr>)
    \<and> process_incoming os (s\<lparr>incoming := buf\<rparr>) = Normal (s\<lparr>incoming := buf\<rparr>))
   \<and> (decode_next fr = Frame (Data payload) [] \<and> chunks \<noteq> [] \<and> [] \<notin> set chunks
        \<and> concat chunks = fr \<and> stdin_registered s \<and> incoming s = [] \<and> \<not> should_close s
        \<and> pty_ready os = None \<and> fst (wait_nohang os) \<noteq> child_pid s \<longrightarrow>
      run (map (\<lambda>c. os\<lparr>stdin_ready := Some c\<rparr>) chunks) s =
        Normal (s\<lparr>incoming := [],
                  trace := trace s
                    @ concat (replicate (length chunks - 1) [Select True, ReadStdin, WaitpidNohang])
                    @ [Select True, ReadStdin]
                    @ (if payload = [] then [] else [WritePty payload])
                    @ [WaitpidNohang]\<rparr>))"
proof -
  have part1: "decode_next buf = NeedMoreBytes
    \<and> loop_body os (s\<lparr>incoming := buf\<rparr>) = Break (s\<lparr>incoming := buf\<rparr>)
    \<and> process_incoming os (s\<lparr>incoming := buf\<rparr>) = Normal (s\<lparr>incoming := buf\<rparr>)"
    if short: "(buf \<noteq> [] \<and> hd buf = 0x01 \<and>
       (length buf < 5 \<or>
        5 \<le> length buf \<and>
        length buf < 5 + (unat (buf ! 1) * 2 ^ 24 + unat (buf ! 2) * 2 ^ 16
                          + unat (buf ! 3) * 2 ^ 8 + unat (buf ! 4)))
     \<or> buf \<noteq> [] \<and> hd buf = 0x02 \<and> length buf < 5)"
  proof -
    from short obtain b bs where buf: "buf = b # bs" by (cases buf) auto
    have dec: "decode_next buf = NeedMoreBytes"
    proof (cases "length buf < 5")
      case True
      with short buf show ?thesis
        by (auto simp: decode_next_def OPCODE_DATA_def OPCODE_RESIZE_def)
    next
      case False
      then have five: "5 \<le> length buf" by simp
      with short buf unpack_I_slice [OF five] show ?thesis
        by (auto simp: decode_next_def OPCODE_DATA_def)
    qed
    then have "loop_body os (s\<lparr>incoming := buf\<rparr>) = Break (s\<lparr>incoming := buf\<rparr>)"
      by (simp add: loop_body_def)
    moreover from dec have "process_incoming os (s\<lparr>incoming := buf\<rparr>) = Normal (s\<lparr>incoming := buf\<rparr>)"
      by (intro process_incoming_need_more) simp
    ultimately show ?thesis using dec by simp
  qed
  have part2: "run (map (\<lambda>c. os\<lparr>stdin_ready := Some c\<rparr>) chunks) s =
        Normal (s\<lparr>incoming := [],
                  trace := trace s
                    @ concat (replicate (length chunks - 1) [Select True, ReadStdin, WaitpidNohang])
                    @ [Select True, ReadStdin]
                    @ (if payload = [] then [] else [WritePty payload])
                    @ [WaitpidNohang]\<rparr>)"
    if whole: "decode_next fr = Frame (Data payload) [] \<and> chunks \<noteq> [] \<and> [] \<notin> set chunks
        \<and> concat chunks = fr \<and> stdin_registered s \<and> incoming s = [] \<and> \<not> should_close s
        \<and> pty_ready os = None \<and> fst (wait_nohang os) \<noteq> child_pid s"
    using whole by (intro run_chunks [where fr = fr]) simp_all
  from part1 part2 show ?thesis by blast
qed

theorem incomplete_frame_left_untouched_witness:
  "decode_next [0x01, 0, 0, 0, 2, 0x68] = NeedMoreBytes
   \<and> process_incoming linux_os (session0\<lparr>incoming := [0x01, 0, 0, 0, 2, 0x68]\<rparr>) =
       Normal (session0\<lparr>incoming := [0x01, 0, 0, 0, 2, 0x68]\<rparr>)
   \<and> run (map (\<lambda>c. linux_os\<lparr>stdin_ready := Some c\<rparr>) [[0x01, 0, 0], [0, 2, 0x68], [0x69]])
        session0 =
       Normal (session0\<lparr>trace :=
         [Select True, ReadStdin, WaitpidNohang,
          Select True, ReadStdin, WaitpidNohang,
          Select True, ReadStdin, WritePty [0x68, 0x69], WaitpidNohang]\<rparr>)"
proof -
  have fr: "decode_next [0x01, 0, 0, 0, 2, 0x68, 0x69] = Frame (Data [0x68, 0x69]) []"
    by (simp add: decode_next_def OPCODE_DATA_def py_slice_def)
  have env: "pty_ready linux_os = None" "fst (wait_nohang linux_os) \<noteq> child_pid session0"
    "stdin_registered session0" "incoming session0 = []" "\<not> should_close session0"
    by (simp_all add: linux_os_def session0_def)
  note inst = incomplete_frame_left_untouched
    [where buf = "[0x01, 0, 0, 0, 2, 0x68]" and os = linux_os and s = session0
       and fr = "[0x01, 0, 0, 0, 2, 0x68, 0x69]" and payload = "[0x68, 0x69]"
       and chunks = "[[0x01, 0, 0], [0, 2, 0x68], [0x69]]"]
  from inst fr env show ?thesis
    by (simp add: session0_def)
qed

text \<open>
  Claim C8. A read of zero bytes from standard input unregisters standard input, and a
  pass that made such a read and goes on leaves it unregistered. From then on, whatever
  the operating system answers and for any number of passes, the loop selects on the PTY
  master alone, never reads standard input again and handles no frame. Meanwhile every
  pass still copies what it reads from the PTY master to standard output, and ends the
  loop only when the reap poll reports the child (or, by claim C7, when the PTY closes).
\<close>

theorem stdin_eof_is_permanent:
  "handle_key os (StdinReady []) s =
     Normal (s\<lparr>stdin_registered := False, trace := trace s @ [ReadStdin, UnregisterStdin]\<rparr>)
   \<and> (stdin_registered s \<and> stdin_ready os = Some [] \<and> iteration os s = Normal s' \<longrightarrow>
        \<not> stdin_registered s')
   \<and> (\<not> stdin_registered s \<longrightarrow>
        (\<exists>ev. trace (session_of (run oss s)) = trace s @ ev
           \<and> ReadStdin \<notin> set ev \<and> UnregisterStdin \<notin> set ev \<and> Select True \<notin> set ev
           \<and> (\<forall>p. WritePty p \<notin> set ev)
           \<and> \<not> stdin_registered (session_of (run oss s))))
   \<and> (\<not> stdin_registered s \<and> \<not> should_close s \<and> pty_ready os = Some (Inr d) \<and> d \<noteq> [] \<longrightarrow>
        iteration os s =
          (let s1 = s\<lparr>trace := trace s @ [Select False, ReadPty, WriteStdout d, WaitpidNohang]\<rparr>
           in if fst (wait_nohang os) = child_pid s
              then Return (exit_code_from_status os (snd (wait_nohang os))) s1
              else Normal s1))
   \<and> (\<not> stdin_registered s \<and> \<not> should_close s \<and> pty_ready os = None \<longrightarrow>
        iteration os s =
          (let s1 = s\<lparr>trace := trace s @ [Select False, WaitpidNohang]\<rparr>
           in if fst (wait_nohang os) = child_pid s
              then Return (exit_code_from_status os (snd (wait_nohang os))) s1
              else Normal s1))"
proof -
  have eof: "handle_key os (StdinReady []) s =
     Normal (s\<lparr>stdin_registered := False, trace := trace s @ [ReadStdin, UnregisterStdin]\<rparr>)"
    by (simp add: log_call_def)
  have once: "stdin_registered s \<and> stdin_ready os = Some [] \<and> iteration os s = Normal s' \<longrightarrow>
        \<not> stdin_registered s'"
    using iteration_after_eof [of os s s'] by blast
  have ever: "\<not> stdin_registered s \<longrightarrow>
        (\<exists>ev. trace (session_of (run oss s)) = trace s @ ev
           \<and> ReadStdin \<notin> set ev \<and> UnregisterStdin \<notin> set ev \<and> Select True \<notin> set ev
           \<and> (\<forall>p. WritePty p \<notin> set ev)
           \<and> \<not> stdin_registered (session_of (run oss s)))"
    using run_unregistered [of s oss] by blast
  have fwd: "\<not> stdin_registered s \<and> \<not> should_close s \<and> pty_ready os = Some (Inr d) \<and> d \<noteq> [] \<longrightarrow>
        iteration os s =
          (let s1 = s\<lparr>trace := trace s @ [Select False, ReadPty, WriteStdout d, WaitpidNohang]\<rparr>
           in if fst (wait_nohang os) = child_pid s
              then Return (exit_code_from_status os (snd (wait_nohang os))) s1
              else Normal s1)"
    by (simp add: iteration_def select_unregistered handle_pty_cases close_phase_cases
        reap_poll_cases log_call_def Let_def del: handle_key.simps)
  have idle: "\<not> stdin_registered s \<and> \<not> should_close s \<and> pty_ready os = None \<longrightarrow>
        iteration os s =
          (let s1 = s\<lparr>trace := trace s @ [Select False, WaitpidNohang]\<rparr>
           in if fst (wait_nohang os) = child_pid s
              then Return (exit_code_from_status os (snd (wait_nohang os))) s1
              else Normal s1)"
    by (simp add: iteration_def select_unregistered close_phase_cases
        reap_poll_cases log_call_def Let_def)
  from eof once ever fwd idle show ?thesis by blast
qed

theorem stdin_eof_is_permanent_witness:
  "run [linux_os\<lparr>stdin_ready := Some []\<rparr>,
        linux_os\<lparr>stdin_ready := Some [0x03], pty_ready := Some (Inr [0x41])\<rparr>] session0 =
     Normal (session0\<lparr>stdin_registered := False,
       trace := [Select True, ReadStdin, UnregisterStdin, WaitpidNohang,
                 Select False, ReadPty, WriteStdout [0x41], WaitpidNohang]\<rparr>)"
proof -
  let ?eof = "linux_os\<lparr>stdin_ready := Some []\<rparr>"
  let ?out = "linux_os\<lparr>stdin_ready := Some [0x03], pty_ready := Some (Inr [0x41])\<rparr>"
  let ?s1 = "session0\<lparr>stdin_registered := False,
       trace := [Select True, ReadStdin, UnregisterStdin, WaitpidNohang]\<rparr>"
  have keys: "selector_select True ?eof = [StdinReady []]"
    by (simp add: selector_select_def linux_os_def)
  have "handle_key ?eof (StdinReady []) (session0\<lparr>trace := [Select True]\<rparr>) =
      Normal (session0\<lparr>stdin_registered := False,
                trace := [Select True, ReadStdin, UnregisterStdin]\<rparr>)"
    using stdin_eof_is_permanent [where os = ?eof and s = "session0\<lparr>trace := [Select True]\<rparr>"]
    by (simp add: session0_def)
  then have first: "iteration ?eof session0 = Normal ?s1"
    using keys
    by (simp add: iteration_def close_phase_def reap_poll_def log_call_def session0_def
        linux_os_def del: handle_key.simps)
  have env: "\<not> stdin_registered ?s1" "\<not> should_close ?s1"
    "pty_ready ?out = Some (Inr [0x41])" "fst (wait_nohang ?out) \<noteq> child_pid ?s1"
    by (simp_all add: session0_def linux_os_def)
  have second: "iteration ?out ?s1 =
      Normal (session0\<lparr>stdin_registered := False,
       trace := [Select True, ReadStdin, UnregisterStdin, WaitpidNohang,
                 Select False, ReadPty, WriteStdout [0x41], WaitpidNohang]\<rparr>)"
    using stdin_eof_is_permanent [where os = ?out and s = ?s1 and d = "[0x41]"] env
    by (simp add: session0_def Let_def)
  from first second show ?thesis by simp
qed




end
